theory Spec2Isabelle
  imports Main "HOL-Library.AList"
begin

section \<open>The relay manager of python-nostr\<close>

text \<open>
  The development embeds \<^verbatim>\<open>nostr/relay_manager.py\<close>: the class \<^verbatim>\<open>RelayManager\<close> with its
  registry \<^verbatim>\<open>self.relays\<close> (a dict from url to \<^verbatim>\<open>Relay\<close> object), its lock, and the
  operations that add and remove relays, open and close subscriptions, publish events and
  repair dropped connections.

  Relay objects are mutable and shared by reference, so the model keeps them in a store:
  a list of relay records in which an object's reference is its index. The dict holds
  references. Every call the manager makes on a relay object, and every acquisition and
  release of the lock, is appended to a trace, so that what was sent to whom, and in which
  order, can be read off the state.
\<close>

subsection \<open>Collaborators of the manager\<close>

record RelayPolicy =
  should_read :: bool
  should_write :: bool

record event =
  ev_id :: string
  content :: string
  signature :: "string option"

text \<open>
  Modelled from the spec: the wire messages that \<^verbatim>\<open>Request.to_message\<close>,
  \<^verbatim>\<open>Event.to_message\<close> and \<^verbatim>\<open>json.dumps(["CLOSE", id])\<close> produce. Each is a JSON array
  whose first element is the tag: \<^verbatim>\<open>["REQ", subscriptionId, ...filterObjects]\<close>,
  \<^verbatim>\<open>["CLOSE", subscriptionId]\<close> and \<^verbatim>\<open>["EVENT", eventObject]\<close>. The type \<open>'f\<close> stands for
  the class \<^verbatim>\<open>Filters\<close>, which the manager only passes on.
\<close>

datatype 'f message =
    REQ string 'f
  | CLOSE string
  | EVENT event

fun tag :: "'f message \<Rightarrow> string" where
  "tag (REQ i f) = ''REQ''"
| "tag (CLOSE i) = ''CLOSE''"
| "tag (EVENT e) = ''EVENT''"

text \<open>
  The methods of \<^verbatim>\<open>Relay\<close> that the manager calls. \<open>Connect True\<close> is \<^verbatim>\<open>connect(True)\<close>,
  the reconnect variant; \<open>Connect False\<close> is the plain \<^verbatim>\<open>connect()\<close>.
\<close>

datatype 'f relay_call =
    Connect bool
  | CloseTransport
  | Publish "'f message"
  | AddSubscription string 'f
  | CloseSubscription string

record 'f relay =
  url :: string
  policy :: RelayPolicy
  subscriptions :: "(string \<times> 'f) list"
  connected :: bool

text \<open>
  What a transport call does to the connection is outside the manager: it is a parameter,
  a function giving the value \<^verbatim>\<open>is_connected()\<close> reports after the call from the call and
  the relay as it was before.
\<close>

type_synonym 'f transport = "'f relay_call \<Rightarrow> 'f relay \<Rightarrow> bool"

text \<open>
  Modelled from the spec: the constructor of the class \<^verbatim>\<open>Relay\<close>, which is not part of
  \<^verbatim>\<open>relay_manager.py\<close>. A new relay has its url and policy, no subscription, and is not
  connected. The message pool, the TLS and proxy options and the two lifecycle callbacks
  are handed to the relay and never read by the manager.
\<close>

definition Relay :: "string \<Rightarrow> RelayPolicy \<Rightarrow> 'f relay" where
  "Relay u p = \<lparr>url = u, policy = p, subscriptions = [], connected = False\<rparr>"

text \<open>
  Modelled from the spec: the methods \<^verbatim>\<open>connect\<close>, \<^verbatim>\<open>close\<close>, \<^verbatim>\<open>publish\<close>,
  \<^verbatim>\<open>add_subscription\<close> and \<^verbatim>\<open>close_subscription\<close> of the class \<^verbatim>\<open>Relay\<close>. The three
  transport calls leave the bookkeeping alone and set the connection status as the
  transport decides; \<^verbatim>\<open>add_subscription\<close> records the subscription under its id and
  \<^verbatim>\<open>close_subscription\<close> removes the record.
\<close>

fun relay_method :: "'f transport \<Rightarrow> 'f relay_call \<Rightarrow> 'f relay \<Rightarrow> 'f relay" where
  "relay_method tr (Connect b) rl = rl\<lparr>connected := tr (Connect b) rl\<rparr>"
| "relay_method tr CloseTransport rl = rl\<lparr>connected := tr CloseTransport rl\<rparr>"
| "relay_method tr (Publish msg) rl = rl\<lparr>connected := tr (Publish msg) rl\<rparr>"
| "relay_method tr (AddSubscription i f) rl =
     rl\<lparr>subscriptions := AList.update i f (subscriptions rl)\<rparr>"
| "relay_method tr (CloseSubscription i) rl =
     rl\<lparr>subscriptions := AList.delete i (subscriptions rl)\<rparr>"

subsection \<open>Exceptions\<close>

text \<open>
  The source has one exception class, \<^verbatim>\<open>RelayException\<close>, raised at four places with four
  messages. Each constructor of \<open>reason\<close> is one of these messages with the values that
  its f-string interpolates. \<^verbatim>\<open>KeyError\<close> is what a dict lookup raises on a missing key.
\<close>

datatype reason =
    Not_configured_to_read string
  | Invalid_relay_url string
  | Must_be_signed string
  | Failed_to_verify string string

datatype exn =
    RelayException reason
  | KeyError string

fun message_of :: "reason \<Rightarrow> string" where
  "message_of (Not_configured_to_read u) =
     ''Could not send request: '' @ u @ '' is not configured to read from''"
| "message_of (Invalid_relay_url u) = ''Invalid relay url: no connection to '' @ u"
| "message_of (Must_be_signed i) = ''Could not publish '' @ i @ '': must be signed''"
| "message_of (Failed_to_verify i s) =
     ''Could not publish '' @ i @ '': failed to verify signature '' @ s"

text \<open>
  The spec sorts the failures into two kinds by their cause: a \<open>PolicyError\<close> when the
  relay is not registered or may not be read from, a \<open>ValidationError\<close> when the event is
  unsigned or its signature does not verify.
\<close>

datatype error_kind = PolicyError | ValidationError

fun kind_of :: "reason \<Rightarrow> error_kind" where
  "kind_of (Not_configured_to_read u) = PolicyError"
| "kind_of (Invalid_relay_url u) = PolicyError"
| "kind_of (Must_be_signed i) = ValidationError"
| "kind_of (Failed_to_verify i s) = ValidationError"

subsection \<open>The manager's state\<close>

datatype 'f action =
    Acquire
  | Release
  | Call nat "'f relay_call"

record 'f manager =
  connection_monitor_interval_secs :: int
  stop_threads :: bool
  relays :: "(string \<times> nat) list"
  objs :: "'f relay list"
  trace :: "'f action list"

text \<open>
  \<^verbatim>\<open>__post_init__\<close>: an empty registry and the stop flag cleared. (It also starts the
  thread that runs the connection monitor; the model has the monitor's loop body as a
  function of its own, \<open>relay_connection_monitor_cycle\<close>.)
\<close>

definition post_init :: "int \<Rightarrow> 'f manager" where
  "post_init secs =
     \<lparr>connection_monitor_interval_secs = secs, stop_threads = False,
      relays = [], objs = [], trace = []\<rparr>"

text \<open>A method call on the relay object behind reference \<open>r\<close>.\<close>

definition invoke :: "'f transport \<Rightarrow> nat \<Rightarrow> 'f relay_call \<Rightarrow> 'f manager \<Rightarrow> 'f manager" where
  "invoke tr r c m =
     m\<lparr>objs := (objs m)[r := relay_method tr c (objs m ! r)],
       trace := trace m @ [Call r c]\<rparr>"

text \<open>
  \<^verbatim>\<open>with self.lock:\<close> acquires the lock, runs the body and releases the lock, also when
  the body raises.
\<close>

definition acquire :: "'f manager \<Rightarrow> 'f manager" where
  "acquire m = m\<lparr>trace := trace m @ [Acquire]\<rparr>"

definition release :: "'f manager \<Rightarrow> 'f manager" where
  "release m = m\<lparr>trace := trace m @ [Release]\<rparr>"

definition with_lock :: "('f manager \<Rightarrow> 'f manager) \<Rightarrow> 'f manager \<Rightarrow> 'f manager" where
  "with_lock body m = release (body (acquire m))"

definition with_lock_exn ::
  "('f manager \<Rightarrow> exn option \<times> 'f manager) \<Rightarrow> 'f manager \<Rightarrow> exn option \<times> 'f manager" where
  "with_lock_exn body m = (case body (acquire m) of (e, m') \<Rightarrow> (e, release m'))"

text \<open>\<^verbatim>\<open>for relay in self.relays.values(): body\<close>, for a body that does not raise.\<close>

fun for_each :: "(nat \<Rightarrow> 'f manager \<Rightarrow> 'f manager) \<Rightarrow> nat list \<Rightarrow> 'f manager \<Rightarrow> 'f manager" where
  "for_each body [] m = m"
| "for_each body (r # rs) m = for_each body rs (body r m)"

definition values_of :: "'f manager \<Rightarrow> nat list" where
  "values_of m = map snd (relays m)"

subsection \<open>The operations of \<^verbatim>\<open>RelayManager\<close>\<close>

text \<open>
  \<^verbatim>\<open>add_relay\<close>: the relay object is built before the lock is taken; under the lock it is
  stored under its url (a dict assignment: an existing key keeps its place and gets the
  new value, a new key goes to the end) and connected.
\<close>

definition add_relay :: "'f transport \<Rightarrow> string \<Rightarrow> RelayPolicy \<Rightarrow> 'f manager \<Rightarrow> 'f manager" where
  "add_relay tr u p m =
     (let relay = length (objs m);
          m1 = m\<lparr>objs := objs m @ [Relay u p]\<rparr>
      in with_lock (\<lambda>m. invoke tr relay (Connect False)
                          (m\<lparr>relays := AList.update u relay (relays m)\<rparr>)) m1)"

definition remove_relay :: "'f transport \<Rightarrow> string \<Rightarrow> 'f manager \<Rightarrow> 'f manager" where
  "remove_relay tr u m =
     with_lock (\<lambda>m. case map_of (relays m) u of
                      Some relay \<Rightarrow>
                        invoke tr relay CloseTransport (m\<lparr>relays := AList.delete u (relays m)\<rparr>)
                    | None \<Rightarrow> m) m"

definition add_subscription_on_relay ::
  "'f transport \<Rightarrow> string \<Rightarrow> string \<Rightarrow> 'f \<Rightarrow> 'f manager \<Rightarrow> exn option \<times> 'f manager" where
  "add_subscription_on_relay tr u i f m =
     with_lock_exn (\<lambda>m. case map_of (relays m) u of
                          Some relay \<Rightarrow>
                            if \<not> should_read (policy (objs m ! relay))
                            then (Some (RelayException (Not_configured_to_read u)), m)
                            else (None, invoke tr relay (Publish (REQ i f))
                                          (invoke tr relay (AddSubscription i f) m))
                        | None \<Rightarrow> (Some (RelayException (Invalid_relay_url u)), m)) m"

definition subscribe_body :: "'f transport \<Rightarrow> string \<Rightarrow> 'f \<Rightarrow> nat \<Rightarrow> 'f manager \<Rightarrow> 'f manager" where
  "subscribe_body tr i f relay m =
     (if should_read (policy (objs m ! relay))
      then invoke tr relay (Publish (REQ i f)) (invoke tr relay (AddSubscription i f) m)
      else m)"

definition add_subscription_on_all_relays ::
  "'f transport \<Rightarrow> string \<Rightarrow> 'f \<Rightarrow> 'f manager \<Rightarrow> 'f manager" where
  "add_subscription_on_all_relays tr i f m =
     with_lock (\<lambda>m. for_each (subscribe_body tr i f) (values_of m) m) m"

definition close_subscription_on_relay ::
  "'f transport \<Rightarrow> string \<Rightarrow> string \<Rightarrow> 'f manager \<Rightarrow> exn option \<times> 'f manager" where
  "close_subscription_on_relay tr u i m =
     with_lock_exn (\<lambda>m. case map_of (relays m) u of
                          Some relay \<Rightarrow>
                            (None, invoke tr relay (Publish (CLOSE i))
                                     (invoke tr relay (CloseSubscription i) m))
                        | None \<Rightarrow> (Some (RelayException (Invalid_relay_url u)), m)) m"

definition unsubscribe_body :: "'f transport \<Rightarrow> string \<Rightarrow> nat \<Rightarrow> 'f manager \<Rightarrow> 'f manager" where
  "unsubscribe_body tr i relay m =
     invoke tr relay (Publish (CLOSE i)) (invoke tr relay (CloseSubscription i) m)"

definition close_subscription_on_all_relays ::
  "'f transport \<Rightarrow> string \<Rightarrow> 'f manager \<Rightarrow> 'f manager" where
  "close_subscription_on_all_relays tr i m =
     with_lock (\<lambda>m. for_each (unsubscribe_body tr i) (values_of m) m) m"

text \<open>
  \<^verbatim>\<open>close_all_relay_connections\<close> iterates over the keys of the dict and looks each one up
  again: \<^verbatim>\<open>for url in self.relays: relay = self.relays[url]; relay.close()\<close>. The lookup
  is written out with the \<^verbatim>\<open>KeyError\<close> it would raise on a missing key.
\<close>

fun close_each :: "'f transport \<Rightarrow> string list \<Rightarrow> 'f manager \<Rightarrow> exn option \<times> 'f manager" where
  "close_each tr [] m = (None, m)"
| "close_each tr (u # us) m =
     (case map_of (relays m) u of
        None \<Rightarrow> (Some (KeyError u), m)
      | Some relay \<Rightarrow> close_each tr us (invoke tr relay CloseTransport m))"

definition close_all_relay_connections ::
  "'f transport \<Rightarrow> 'f manager \<Rightarrow> exn option \<times> 'f manager" where
  "close_all_relay_connections tr m =
     with_lock_exn (\<lambda>m. close_each tr (map fst (relays m)) m) m"

text \<open>
  \<^verbatim>\<open>publish_event\<close>: the two checks come before the lock is taken. Whether a signature
  verifies is cryptography outside the manager, so \<^verbatim>\<open>event.verify()\<close> is the parameter
  \<open>verify\<close>.
\<close>

definition publish_body :: "'f transport \<Rightarrow> event \<Rightarrow> nat \<Rightarrow> 'f manager \<Rightarrow> 'f manager" where
  "publish_body tr e relay m =
     (if should_write (policy (objs m ! relay))
      then invoke tr relay (Publish (EVENT e)) m
      else m)"

definition publish_event ::
  "'f transport \<Rightarrow> (event \<Rightarrow> bool) \<Rightarrow> event \<Rightarrow> 'f manager \<Rightarrow> exn option \<times> 'f manager" where
  "publish_event tr verify e m =
     (case signature e of
        None \<Rightarrow> (Some (RelayException (Must_be_signed (ev_id e))), m)
      | Some s \<Rightarrow>
          if \<not> verify e
          then (Some (RelayException (Failed_to_verify (ev_id e) s)), m)
          else (None, with_lock (\<lambda>m. for_each (publish_body tr e) (values_of m) m) m))"

text \<open>
  One pass of the loop of \<^verbatim>\<open>_relay_connection_monitor\<close>: the statements under
  \<^verbatim>\<open>with self.lock\<close>. The loop repeats the pass, sleeping
  \<^verbatim>\<open>connection_monitor_interval_secs\<close> in between, until \<^verbatim>\<open>stop_threads\<close> is set.
\<close>

definition monitor_body :: "'f transport \<Rightarrow> nat \<Rightarrow> 'f manager \<Rightarrow> 'f manager" where
  "monitor_body tr relay m =
     (if \<not> connected (objs m ! relay) then invoke tr relay (Connect True) m else m)"

definition relay_connection_monitor_cycle :: "'f transport \<Rightarrow> 'f manager \<Rightarrow> 'f manager" where
  "relay_connection_monitor_cycle tr m =
     with_lock (\<lambda>m. if length (relays m) > 0
                    then for_each (monitor_body tr) (values_of m) m
                    else m) m"

subsection \<open>Observations\<close>

text \<open>
  The calls an operation makes are the part of the trace it appends; \<open>calls_on r\<close>
  selects the calls made on the relay object \<open>r\<close>, in order, and \<open>sent\<close> the messages
  among them that were handed to \<^verbatim>\<open>publish\<close>.
\<close>

definition emitted :: "'f manager \<Rightarrow> 'f manager \<Rightarrow> 'f action list" where
  "emitted m m' = drop (length (trace m)) (trace m')"

fun calls_on :: "nat \<Rightarrow> 'f action list \<Rightarrow> 'f relay_call list" where
  "calls_on r [] = []"
| "calls_on r (Call r' c # as) = (if r' = r then c # calls_on r as else calls_on r as)"
| "calls_on r (a # as) = calls_on r as"

fun sent :: "'f relay_call list \<Rightarrow> 'f message list" where
  "sent [] = []"
| "sent (Publish msg # cs) = msg # sent cs"
| "sent (c # cs) = sent cs"

text \<open>
  An auxiliary for the proofs: a step that touches the relay object \<open>r\<close> only, turning it
  into \<open>g\<close> of itself and making on it the calls \<open>cs\<close> computes from it.
\<close>

definition on_relay ::
  "('f relay \<Rightarrow> 'f relay) \<Rightarrow> ('f relay \<Rightarrow> 'f relay_call list) \<Rightarrow> nat \<Rightarrow> 'f manager \<Rightarrow> 'f manager" where
  "on_relay g cs r m =
     m\<lparr>objs := (objs m)[r := g (objs m ! r)],
       trace := trace m @ map (Call r) (cs (objs m ! r))\<rparr>"

text \<open>
  The invariant of the registry: the keys of the dict are distinct, no two keys hold the
  same relay object, and every reference in the dict is an object of the store.
\<close>

definition registry_ok :: "'f manager \<Rightarrow> bool" where
  "registry_ok m \<longleftrightarrow>
     distinct (map fst (relays m)) \<and> distinct (values_of m) \<and>
     list_all (\<lambda>r. r < length (objs m)) (values_of m)"

text \<open>An operation fails with a \<^verbatim>\<open>RelayException\<close> of the given kind.\<close>

definition fails_with :: "exn option \<times> 'f manager \<Rightarrow> error_kind \<Rightarrow> bool" where
  "fails_with res k =
     (case fst res of
        Some (RelayException rsn) \<Rightarrow> kind_of rsn = k
      | _ \<Rightarrow> False)"

subsection \<open>A manager with three relays, and two events\<close>

definition plain_transport :: "'f transport" where
  "plain_transport c rl =
     (case c of Connect b \<Rightarrow> True | CloseTransport \<Rightarrow> False | _ \<Rightarrow> connected rl)"

definition read_only :: RelayPolicy where
  "read_only = \<lparr>should_read = True, should_write = False\<rparr>"

definition write_only :: RelayPolicy where
  "write_only = \<lparr>should_read = False, should_write = True\<rparr>"

definition read_write :: RelayPolicy where
  "read_write = \<lparr>should_read = True, should_write = True\<rparr>"

definition three_relays :: "string list manager" where
  "three_relays =
     add_relay plain_transport ''wss://c'' read_write
       (add_relay plain_transport ''wss://b'' write_only
          (add_relay plain_transport ''wss://a'' read_only (post_init 5)))"

definition signed_event :: event where
  "signed_event = \<lparr>ev_id = ''e1'', content = ''hello'', signature = Some ''5167''\<rparr>"

definition unsigned_event :: event where
  "unsigned_event = \<lparr>ev_id = ''e2'', content = ''hello'', signature = None\<rparr>"

text \<open>
  A transport on which the first connection attempt fails and a reconnect succeeds, and
  a manager whose second relay is therefore down.
\<close>

definition first_connect_fails :: "'f transport" where
  "first_connect_fails c rl =
     (case c of Connect b \<Rightarrow> b | CloseTransport \<Rightarrow> False | _ \<Rightarrow> connected rl)"

definition one_down :: "string list manager" where
  "one_down =
     add_relay first_connect_fails ''wss://e'' read_write
       (add_relay plain_transport ''wss://d'' read_write (post_init 5))"

text \<open>The three relays after a subscription on all of them.\<close>

definition subscribed :: "string list manager" where
  "subscribed = add_subscription_on_all_relays plain_transport ''sub1'' [''kinds=1''] three_relays"

text \<open>
  A transport on which a subscribe request finds the relay connected exactly when the
  relay already holds the record of that subscription.
\<close>

definition request_sees_record :: "'f transport" where
  "request_sees_record c rl =
     (case c of
        Publish (REQ i f) \<Rightarrow> map_of (subscriptions rl) i = Some f
      | _ \<Rightarrow> connected rl)"

section \<open>Properties\<close>

subsection \<open>Steps on one relay and loops over relays\<close>

lemma invoke_on_relay: "invoke tr r c = on_relay (relay_method tr c) (\<lambda>rl. [c]) r"
  by (rule ext) (simp add: invoke_def on_relay_def)

lemma invoke_after_on_relay:
  "invoke tr r c (on_relay g cs r m) =
   on_relay (\<lambda>rl. relay_method tr c (g rl)) (\<lambda>rl. cs rl @ [c]) r m"
proof (cases "r < length (objs m)")
  case True
  then show ?thesis by (simp add: on_relay_def invoke_def)
next
  case False
  then have "length (objs m) \<le> r" by simp
  then show ?thesis by (simp add: on_relay_def invoke_def list_update_beyond)
qed

lemma on_relay_if:
  "(if P (objs m ! r) then on_relay g cs r m else m) =
   on_relay (\<lambda>rl. if P rl then g rl else rl) (\<lambda>rl. if P rl then cs rl else []) r m"
  by (simp add: on_relay_def)

lemma on_relay_simps [simp]:
  "relays (on_relay g cs r m) = relays m"
  "length (objs (on_relay g cs r m)) = length (objs m)"
  "stop_threads (on_relay g cs r m) = stop_threads m"
  "connection_monitor_interval_secs (on_relay g cs r m) = connection_monitor_interval_secs m"
  "trace (on_relay g cs r m) = trace m @ map (Call r) (cs (objs m ! r))"
  by (simp_all add: on_relay_def)

lemma on_relay_objs_other: "r' \<noteq> r \<Longrightarrow> objs (on_relay g cs r m) ! r' = objs m ! r'"
  by (simp add: on_relay_def)

lemma on_relay_objs_same: "r < length (objs m) \<Longrightarrow> objs (on_relay g cs r m) ! r = g (objs m ! r)"
  by (simp add: on_relay_def)

lemma for_each_relays [simp]: "relays (for_each (on_relay g cs) rs m) = relays m"
  by (induction rs arbitrary: m) simp_all

lemma for_each_length [simp]:
  "length (objs (for_each (on_relay g cs) rs m)) = length (objs m)"
  by (induction rs arbitrary: m) simp_all

lemma for_each_flags [simp]:
  "stop_threads (for_each (on_relay g cs) rs m) = stop_threads m"
  "connection_monitor_interval_secs (for_each (on_relay g cs) rs m) =
     connection_monitor_interval_secs m"
  by (induction rs arbitrary: m) simp_all

lemma for_each_objs_other:
  "r \<notin> set rs \<Longrightarrow> objs (for_each (on_relay g cs) rs m) ! r = objs m ! r"
  by (induction rs arbitrary: m) (simp_all add: on_relay_objs_other)

lemma for_each_objs_same:
  "distinct rs \<Longrightarrow> r \<in> set rs \<Longrightarrow> r < length (objs m) \<Longrightarrow>
   objs (for_each (on_relay g cs) rs m) ! r = g (objs m ! r)"
proof (induction rs arbitrary: m)
  case Nil
  then show ?case by simp
next
  case (Cons a rs)
  show ?case
  proof (cases "a = r")
    case True
    with Cons.prems have "r \<notin> set rs" by simp
    then have "objs (for_each (on_relay g cs) rs (on_relay g cs a m)) ! r =
               objs (on_relay g cs a m) ! r"
      by (rule for_each_objs_other)
    with True Cons.prems show ?thesis by (simp add: on_relay_objs_same)
  next
    case False
    with Cons.prems have "objs (for_each (on_relay g cs) rs (on_relay g cs a m)) ! r =
                          g (objs (on_relay g cs a m) ! r)"
      by (intro Cons.IH) simp_all
    with False show ?thesis by (simp add: on_relay_objs_other)
  qed
qed

lemma for_each_trace:
  "distinct rs \<Longrightarrow>
   trace (for_each (on_relay g cs) rs m) =
   trace m @ concat (map (\<lambda>r. map (Call r) (cs (objs m ! r))) rs)"
proof (induction rs arbitrary: m)
  case Nil
  then show ?case by simp
next
  case (Cons a rs)
  from Cons.prems have "\<forall>r\<in>set rs. r \<noteq> a" by auto
  then have eq: "map (\<lambda>r. map (Call r) (cs (objs (on_relay g cs a m) ! r))) rs =
                 map (\<lambda>r. map (Call r) (cs (objs m ! r))) rs"
    by (intro map_cong) (simp_all add: on_relay_objs_other)
  from Cons.prems have d: "distinct rs" by simp
  show ?case by (simp add: Cons.IH [OF d] eq)
qed

lemma calls_on_append [simp]: "calls_on r (xs @ ys) = calls_on r xs @ calls_on r ys"
  by (induction r xs rule: calls_on.induct) simp_all

lemma calls_on_map_Call [simp]: "calls_on r (map (Call r') cs) = (if r' = r then cs else [])"
  by (induction cs) auto

lemma calls_on_concat_other:
  "r \<notin> set rs \<Longrightarrow> calls_on r (concat (map (\<lambda>r'. map (Call r') (cs r')) rs)) = []"
  by (induction rs) auto

lemma calls_on_concat_same:
  "distinct rs \<Longrightarrow> r \<in> set rs \<Longrightarrow>
   calls_on r (concat (map (\<lambda>r'. map (Call r') (cs r')) rs)) = cs r"
  by (induction rs) (auto simp: calls_on_concat_other)

lemma emitted_append [simp]: "emitted m (m'\<lparr>trace := trace m @ xs\<rparr>) = xs"
  by (simp add: emitted_def)

lemma emitted_trace: "trace m' = trace m @ xs \<Longrightarrow> emitted m m' = xs"
  by (simp add: emitted_def)

subsection \<open>The loop bodies act on one relay\<close>

lemma publish_body_on_relay:
  "publish_body tr e =
   on_relay (\<lambda>rl. if should_write (policy rl) then relay_method tr (Publish (EVENT e)) rl else rl)
            (\<lambda>rl. if should_write (policy rl) then [Publish (EVENT e)] else [])"
  by (intro ext) (simp add: publish_body_def invoke_def on_relay_def)

lemma subscribe_body_on_relay:
  "subscribe_body tr i f =
   on_relay (\<lambda>rl. if should_read (policy rl)
                   then relay_method tr (Publish (REQ i f)) (relay_method tr (AddSubscription i f) rl)
                   else rl)
            (\<lambda>rl. if should_read (policy rl) then [AddSubscription i f, Publish (REQ i f)] else [])"
  by (intro ext)
     (simp add: subscribe_body_def invoke_on_relay [of _ _ "AddSubscription i f"]
        invoke_after_on_relay, simp add: on_relay_def)

lemma unsubscribe_body_on_relay:
  "unsubscribe_body tr i =
   on_relay (\<lambda>rl. relay_method tr (Publish (CLOSE i)) (relay_method tr (CloseSubscription i) rl))
            (\<lambda>rl. [CloseSubscription i, Publish (CLOSE i)])"
  by (intro ext)
     (simp add: unsubscribe_body_def invoke_on_relay [of _ _ "CloseSubscription i"]
        invoke_after_on_relay)

lemma monitor_body_on_relay:
  "monitor_body tr =
   on_relay (\<lambda>rl. if \<not> connected rl then relay_method tr (Connect True) rl else rl)
            (\<lambda>rl. if \<not> connected rl then [Connect True] else [])"
  by (intro ext) (simp add: monitor_body_def invoke_def on_relay_def)

subsection \<open>The lock\<close>

lemma with_lock_trace:
  "trace (with_lock body m) = trace (body (acquire m)) @ [Release]"
  by (simp add: with_lock_def release_def)

lemma acquire_simps [simp]:
  "relays (acquire m) = relays m"
  "objs (acquire m) = objs m"
  "trace (acquire m) = trace m @ [Acquire]"
  "values_of (acquire m) = values_of m"
  "stop_threads (acquire m) = stop_threads m"
  "connection_monitor_interval_secs (acquire m) = connection_monitor_interval_secs m"
  by (simp_all add: acquire_def values_of_def)

lemma release_simps [simp]:
  "relays (release m) = relays m"
  "objs (release m) = objs m"
  "trace (release m) = trace m @ [Release]"
  "values_of (release m) = values_of m"
  "stop_threads (release m) = stop_threads m"
  "connection_monitor_interval_secs (release m) = connection_monitor_interval_secs m"
  by (simp_all add: release_def values_of_def)

text \<open>A locked loop over all registered relays.\<close>

lemma locked_loop_relays:
  "relays (with_lock (\<lambda>m. for_each (on_relay g cs) (values_of m) m) m) = relays m"
  by (simp add: with_lock_def)

lemma locked_loop_emitted:
  "registry_ok m \<Longrightarrow>
   emitted m (with_lock (\<lambda>m. for_each (on_relay g cs) (values_of m) m) m) =
   Acquire # concat (map (\<lambda>r. map (Call r) (cs (objs m ! r))) (values_of m)) @ [Release]"
  by (rule emitted_trace) (simp add: with_lock_def registry_ok_def for_each_trace)

lemma locked_loop_calls_on:
  "registry_ok m \<Longrightarrow> r \<in> set (values_of m) \<Longrightarrow>
   calls_on r (emitted m (with_lock (\<lambda>m. for_each (on_relay g cs) (values_of m) m) m)) =
   cs (objs m ! r)"
  by (simp add: locked_loop_emitted)
     (simp add: registry_ok_def calls_on_concat_same [where cs = "\<lambda>r. cs (objs m ! r)"])

lemma locked_loop_calls_on_other:
  "registry_ok m \<Longrightarrow> r \<notin> set (values_of m) \<Longrightarrow>
   calls_on r (emitted m (with_lock (\<lambda>m. for_each (on_relay g cs) (values_of m) m) m)) = []"
  by (simp add: locked_loop_emitted)
     (simp add: calls_on_concat_other [where cs = "\<lambda>r. cs (objs m ! r)"])

lemma locked_loop_objs_same:
  "registry_ok m \<Longrightarrow> r \<in> set (values_of m) \<Longrightarrow>
   objs (with_lock (\<lambda>m. for_each (on_relay g cs) (values_of m) m) m) ! r = g (objs m ! r)"
  by (simp add: with_lock_def registry_ok_def for_each_objs_same list_all_iff)

lemma locked_loop_objs_other:
  "r \<notin> set (values_of m) \<Longrightarrow>
   objs (with_lock (\<lambda>m. for_each (on_relay g cs) (values_of m) m) m) ! r = objs m ! r"
  by (simp add: with_lock_def for_each_objs_other)

subsection \<open>The dict and the store\<close>

lemma invoke_simps [simp]:
  "relays (invoke tr r c m) = relays m"
  "trace (invoke tr r c m) = trace m @ [Call r c]"
  "length (objs (invoke tr r c m)) = length (objs m)"
  "stop_threads (invoke tr r c m) = stop_threads m"
  "connection_monitor_interval_secs (invoke tr r c m) = connection_monitor_interval_secs m"
  "values_of (invoke tr r c m) = values_of m"
  by (simp_all add: invoke_def values_of_def)

lemma lookup_in_values: "map_of (relays m) u = Some r \<Longrightarrow> r \<in> set (values_of m)"
  by (auto simp: values_of_def dest!: map_of_SomeD intro: image_eqI [where x = "(u, r)"])

lemma registry_ok_valid: "registry_ok m \<Longrightarrow> r \<in> set (values_of m) \<Longrightarrow> r < length (objs m)"
  by (simp add: registry_ok_def list_all_iff)

lemma registry_ok_lookup:
  "registry_ok m \<Longrightarrow> map_of (relays m) u = Some r \<Longrightarrow> r < length (objs m)"
  by (blast intro: registry_ok_valid lookup_in_values)

lemma values_update: "set (map snd (AList.update k v al)) \<subseteq> insert v (set (map snd al))"
  by (induction al) auto

lemma distinct_values_update:
  "distinct (map snd al) \<Longrightarrow> v \<notin> set (map snd al) \<Longrightarrow> distinct (map snd (AList.update k v al))"
proof (induction al)
  case Nil
  then show ?case by simp
next
  case (Cons p ps)
  have "set (map snd (AList.update k v ps)) \<subseteq> insert v (set (map snd ps))"
    by (rule values_update)
  with Cons show ?case by auto
qed

lemma values_delete: "set (map snd (AList.delete k al)) \<subseteq> set (map snd al)"
  by (auto simp: AList.delete_eq)

lemma distinct_values_delete:
  "distinct (map snd al) \<Longrightarrow> distinct (map snd (AList.delete k al))"
  by (simp add: AList.delete_eq distinct_map_filter)

lemma keys_lookup:
  "distinct (map fst al) \<Longrightarrow> map (\<lambda>u. the (map_of al u)) (map fst al) = map snd al"
  by (simp add: map_eq_conv) (auto dest: map_of_is_SomeI)

subsection \<open>The registry invariant: the start, adding and removing\<close>

lemma registry_ok_post_init: "registry_ok (post_init secs)"
  by (simp add: registry_ok_def post_init_def values_of_def)

lemma registry_ok_cong:
  "relays m' = relays m \<Longrightarrow> length (objs m') = length (objs m) \<Longrightarrow>
   registry_ok m' = registry_ok m"
  by (simp add: registry_ok_def values_of_def)

lemma add_relay_relays:
  "relays (add_relay tr u p m) = AList.update u (length (objs m)) (relays m)"
  by (simp add: add_relay_def with_lock_def Let_def acquire_def)

lemma add_relay_length: "length (objs (add_relay tr u p m)) = Suc (length (objs m))"
  by (simp add: add_relay_def with_lock_def Let_def acquire_def)

lemma add_relay_trace:
  "trace (add_relay tr u p m) =
   trace m @ [Acquire, Call (length (objs m)) (Connect False), Release]"
  by (simp add: add_relay_def with_lock_def Let_def acquire_def)

lemma add_relay_objs_new:
  "objs (add_relay tr u p m) ! length (objs m) = relay_method tr (Connect False) (Relay u p)"
  by (simp add: add_relay_def with_lock_def Let_def acquire_def invoke_def)

lemma add_relay_objs_old:
  "r < length (objs m) \<Longrightarrow> objs (add_relay tr u p m) ! r = objs m ! r"
  by (simp add: add_relay_def with_lock_def Let_def acquire_def invoke_def nth_append)

lemma registry_ok_add_relay:
  assumes "registry_ok m"
  shows "registry_ok (add_relay tr u p m)"
proof -
  let ?n = "length (objs m)"
  from assms have d: "distinct (map fst (relays m))" "distinct (map snd (relays m))"
    and v: "\<forall>r\<in>set (map snd (relays m)). r < ?n"
    by (simp_all add: registry_ok_def values_of_def list_all_iff)
  from v have fresh: "?n \<notin> set (map snd (relays m))" by auto
  have sub: "set (map snd (AList.update u ?n (relays m))) \<subseteq> insert ?n (set (map snd (relays m)))"
    by (rule values_update)
  have "distinct (map fst (AList.update u ?n (relays m)))"
    using d(1) by (rule distinct_update)
  moreover have "distinct (map snd (AList.update u ?n (relays m)))"
    using d(2) fresh by (rule distinct_values_update)
  moreover have "\<forall>r\<in>set (map snd (AList.update u ?n (relays m))). r < Suc ?n"
    using sub v by fastforce
  ultimately show ?thesis
    by (simp add: registry_ok_def values_of_def list_all_iff add_relay_relays add_relay_length)
qed

lemma remove_relay_absent:
  "map_of (relays m) u = None \<Longrightarrow> remove_relay tr u m = m\<lparr>trace := trace m @ [Acquire, Release]\<rparr>"
  by (simp add: remove_relay_def with_lock_def acquire_def release_def)

lemma remove_relay_present:
  "map_of (relays m) u = Some r \<Longrightarrow>
   remove_relay tr u m =
     m\<lparr>relays := AList.delete u (relays m),
       objs := (objs m)[r := relay_method tr CloseTransport (objs m ! r)],
       trace := trace m @ [Acquire, Call r CloseTransport, Release]\<rparr>"
  by (simp add: remove_relay_def with_lock_def acquire_def release_def invoke_def)

lemma registry_ok_remove_relay:
  assumes "registry_ok m"
  shows "registry_ok (remove_relay tr u m)"
proof (cases "map_of (relays m) u")
  case None
  with assms show ?thesis
    by (simp add: remove_relay_absent registry_ok_def values_of_def)
next
  case (Some r)
  have sub: "set (map snd (AList.delete u (relays m))) \<subseteq> set (map snd (relays m))"
    by (rule values_delete)
  from assms have v: "\<forall>r\<in>set (map snd (relays m)). r < length (objs m)"
    by (simp add: registry_ok_def values_of_def list_all_iff)
  from sub v have "\<forall>r\<in>set (map snd (AList.delete u (relays m))). r < length (objs m)"
    by blast
  with assms Some show ?thesis
    by (simp add: remove_relay_present registry_ok_def values_of_def list_all_iff
          distinct_delete distinct_values_delete)
qed

subsection \<open>The operations on one relay\<close>

lemma add_subscription_on_relay_unknown:
  "map_of (relays m) u = None \<Longrightarrow>
   add_subscription_on_relay tr u i f m =
     (Some (RelayException (Invalid_relay_url u)), m\<lparr>trace := trace m @ [Acquire, Release]\<rparr>)"
  by (simp add: add_subscription_on_relay_def with_lock_exn_def acquire_def release_def)

lemma add_subscription_on_relay_unreadable:
  "map_of (relays m) u = Some r \<Longrightarrow> \<not> should_read (policy (objs m ! r)) \<Longrightarrow>
   add_subscription_on_relay tr u i f m =
     (Some (RelayException (Not_configured_to_read u)),
      m\<lparr>trace := trace m @ [Acquire, Release]\<rparr>)"
  by (simp add: add_subscription_on_relay_def with_lock_exn_def acquire_def release_def)

lemma add_subscription_on_relay_readable:
  "map_of (relays m) u = Some r \<Longrightarrow> should_read (policy (objs m ! r)) \<Longrightarrow>
   add_subscription_on_relay tr u i f m =
     (None,
      m\<lparr>objs := (objs m)[r := relay_method tr (Publish (REQ i f))
                               (relay_method tr (AddSubscription i f) (objs m ! r))],
        trace := trace m @
          [Acquire, Call r (AddSubscription i f), Call r (Publish (REQ i f)), Release]\<rparr>)"
proof -
  assume a: "map_of (relays m) u = Some r" "should_read (policy (objs m ! r))"
  have "invoke tr r (Publish (REQ i f)) (invoke tr r (AddSubscription i f) (acquire m)) =
        on_relay (\<lambda>rl. relay_method tr (Publish (REQ i f)) (relay_method tr (AddSubscription i f) rl))
                 (\<lambda>rl. [AddSubscription i f, Publish (REQ i f)]) r (acquire m)"
    by (simp add: invoke_on_relay [of _ _ "AddSubscription i f"] invoke_after_on_relay)
  with a show ?thesis
    by (simp add: add_subscription_on_relay_def with_lock_exn_def)
       (simp add: on_relay_def acquire_def release_def)
qed

lemma close_subscription_on_relay_unknown:
  "map_of (relays m) u = None \<Longrightarrow>
   close_subscription_on_relay tr u i m =
     (Some (RelayException (Invalid_relay_url u)), m\<lparr>trace := trace m @ [Acquire, Release]\<rparr>)"
  by (simp add: close_subscription_on_relay_def with_lock_exn_def acquire_def release_def)

lemma close_subscription_on_relay_known:
  "map_of (relays m) u = Some r \<Longrightarrow>
   close_subscription_on_relay tr u i m =
     (None,
      m\<lparr>objs := (objs m)[r := relay_method tr (Publish (CLOSE i))
                               (relay_method tr (CloseSubscription i) (objs m ! r))],
        trace := trace m @
          [Acquire, Call r (CloseSubscription i), Call r (Publish (CLOSE i)), Release]\<rparr>)"
proof -
  assume a: "map_of (relays m) u = Some r"
  have "invoke tr r (Publish (CLOSE i)) (invoke tr r (CloseSubscription i) (acquire m)) =
        on_relay (\<lambda>rl. relay_method tr (Publish (CLOSE i)) (relay_method tr (CloseSubscription i) rl))
                 (\<lambda>rl. [CloseSubscription i, Publish (CLOSE i)]) r (acquire m)"
    by (simp add: invoke_on_relay [of _ _ "CloseSubscription i"] invoke_after_on_relay)
  with a show ?thesis
    by (simp add: close_subscription_on_relay_def with_lock_exn_def)
       (simp add: on_relay_def acquire_def release_def)
qed

lemma emitted_update [simp]:
  "emitted m (m\<lparr>trace := trace m @ xs\<rparr>) = xs"
  "emitted m (m\<lparr>objs := os, trace := trace m @ xs\<rparr>) = xs"
  "emitted m (m\<lparr>relays := rs, objs := os, trace := trace m @ xs\<rparr>) = xs"
  by (simp_all add: emitted_def)

subsection \<open>The operations on all relays are locked loops\<close>

lemma add_subscription_on_all_relays_loop:
  "add_subscription_on_all_relays tr i f m =
   with_lock (\<lambda>m. for_each
     (on_relay (\<lambda>rl. if should_read (policy rl)
                      then relay_method tr (Publish (REQ i f))
                             (relay_method tr (AddSubscription i f) rl)
                      else rl)
               (\<lambda>rl. if should_read (policy rl)
                      then [AddSubscription i f, Publish (REQ i f)] else []))
     (values_of m) m) m"
  by (simp add: add_subscription_on_all_relays_def subscribe_body_on_relay)

lemma relay_connection_monitor_cycle_loop:
  "relay_connection_monitor_cycle tr m =
   with_lock (\<lambda>m. for_each
     (on_relay (\<lambda>rl. if \<not> connected rl then relay_method tr (Connect True) rl else rl)
               (\<lambda>rl. if \<not> connected rl then [Connect True] else []))
     (values_of m) m) m"
proof (cases "relays m")
  case Nil
  then show ?thesis
    by (simp add: relay_connection_monitor_cycle_def with_lock_def values_of_def)
next
  case (Cons p ps)
  then show ?thesis
    by (simp add: relay_connection_monitor_cycle_def with_lock_def monitor_body_on_relay)
qed

lemma close_each_for_each:
  "set us \<subseteq> fst ` set (relays m) \<Longrightarrow>
   close_each tr us m =
     (None, for_each (on_relay (relay_method tr CloseTransport) (\<lambda>rl. [CloseTransport]))
              (map (\<lambda>u. the (map_of (relays m) u)) us) m)"
proof (induction us arbitrary: m)
  case Nil
  then show ?case by simp
next
  case (Cons u us)
  from Cons.prems have "u \<in> fst ` set (relays m)" by simp
  then obtain r where r: "map_of (relays m) u = Some r"
    by (auto dest: weak_map_of_SomeI)
  from Cons.prems have "set us \<subseteq> fst ` set (relays (invoke tr r CloseTransport m))"
    by simp
  then have "close_each tr us (invoke tr r CloseTransport m) =
     (None, for_each (on_relay (relay_method tr CloseTransport) (\<lambda>rl. [CloseTransport]))
              (map (\<lambda>u. the (map_of (relays (invoke tr r CloseTransport m)) u)) us)
              (invoke tr r CloseTransport m))"
    by (rule Cons.IH)
  with r show ?case by (simp add: invoke_on_relay del: relay_method.simps)
qed

lemma close_all_relay_connections_loop:
  assumes "registry_ok m"
  shows "close_all_relay_connections tr m =
     (None, with_lock (\<lambda>m. for_each
        (on_relay (relay_method tr CloseTransport) (\<lambda>rl. [CloseTransport]))
        (values_of m) m) m)"
proof -
  from assms have d: "distinct (map fst (relays m))"
    by (simp add: registry_ok_def)
  have "close_each tr (map fst (relays (acquire m))) (acquire m) =
     (None, for_each (on_relay (relay_method tr CloseTransport) (\<lambda>rl. [CloseTransport]))
              (map (\<lambda>u. the (map_of (relays (acquire m)) u)) (map fst (relays (acquire m))))
              (acquire m))"
    by (rule close_each_for_each) simp
  also have "map (\<lambda>u. the (map_of (relays (acquire m)) u)) (map fst (relays (acquire m))) =
             values_of (acquire m)"
    using d by (simp add: keys_lookup values_of_def del: map_map)
  finally have e: "close_each tr (map fst (relays (acquire m))) (acquire m) =
     (None, for_each (on_relay (relay_method tr CloseTransport) (\<lambda>rl. [CloseTransport]))
              (values_of (acquire m)) (acquire m))" .
  show ?thesis
    by (simp add: close_all_relay_connections_def with_lock_exn_def with_lock_def e
          del: acquire_simps relay_method.simps)
qed

subsection \<open>Every operation keeps the registry invariant\<close>

lemma locked_loop_length:
  "length (objs (with_lock (\<lambda>m. for_each (on_relay g cs) (values_of m) m) m)) = length (objs m)"
  by (simp add: with_lock_def)

lemma registry_ok_locked_loop:
  "registry_ok (with_lock (\<lambda>m. for_each (on_relay g cs) (values_of m) m) m) = registry_ok m"
  by (rule registry_ok_cong) (rule locked_loop_relays, rule locked_loop_length)

lemma registry_ok_add_subscription_on_relay:
  assumes "registry_ok m"
  shows "registry_ok (snd (add_subscription_on_relay tr u i f m))"
proof (cases "map_of (relays m) u")
  case None
  with assms show ?thesis
    by (simp add: add_subscription_on_relay_unknown registry_ok_def values_of_def)
next
  case (Some r)
  show ?thesis
  proof (cases "should_read (policy (objs m ! r))")
    case True
    with Some assms show ?thesis
      by (simp add: add_subscription_on_relay_readable registry_ok_def values_of_def)
  next
    case False
    with Some assms show ?thesis
      by (simp add: add_subscription_on_relay_unreadable registry_ok_def values_of_def)
  qed
qed

lemma registry_ok_close_subscription_on_relay:
  assumes "registry_ok m"
  shows "registry_ok (snd (close_subscription_on_relay tr u i m))"
proof (cases "map_of (relays m) u")
  case None
  with assms show ?thesis
    by (simp add: close_subscription_on_relay_unknown registry_ok_def values_of_def)
next
  case (Some r)
  with assms show ?thesis
    by (simp add: close_subscription_on_relay_known registry_ok_def values_of_def)
qed

lemma registry_ok_add_subscription_on_all_relays:
  "registry_ok m \<Longrightarrow> registry_ok (add_subscription_on_all_relays tr i f m)"
  by (simp add: add_subscription_on_all_relays_loop registry_ok_locked_loop)

lemma registry_ok_close_subscription_on_all_relays:
  "registry_ok m \<Longrightarrow> registry_ok (close_subscription_on_all_relays tr i m)"
  by (simp add: close_subscription_on_all_relays_def unsubscribe_body_on_relay
        registry_ok_locked_loop)

lemma registry_ok_close_all_relay_connections:
  "registry_ok m \<Longrightarrow> registry_ok (snd (close_all_relay_connections tr m))"
  by (simp add: close_all_relay_connections_loop registry_ok_locked_loop)

lemma registry_ok_publish_event:
  "registry_ok m \<Longrightarrow> registry_ok (snd (publish_event tr verify e m))"
  by (simp add: publish_event_def publish_body_on_relay registry_ok_locked_loop
        split: option.split)

lemma registry_ok_relay_connection_monitor_cycle:
  "registry_ok m \<Longrightarrow> registry_ok (relay_connection_monitor_cycle tr m)"
  by (simp add: relay_connection_monitor_cycle_loop registry_ok_locked_loop)

subsection \<open>The example managers\<close>

lemma three_relays_eq:
  "three_relays =
     \<lparr>connection_monitor_interval_secs = 5, stop_threads = False,
      relays = [(''wss://a'', 0), (''wss://b'', 1), (''wss://c'', 2)],
      objs = [\<lparr>url = ''wss://a'', policy = read_only, subscriptions = [], connected = True\<rparr>,
              \<lparr>url = ''wss://b'', policy = write_only, subscriptions = [], connected = True\<rparr>,
              \<lparr>url = ''wss://c'', policy = read_write, subscriptions = [], connected = True\<rparr>],
      trace = [Acquire, Call 0 (Connect False), Release,
               Acquire, Call 1 (Connect False), Release,
               Acquire, Call 2 (Connect False), Release]\<rparr>"
  by (simp add: three_relays_def add_relay_def post_init_def with_lock_def acquire_def
        release_def invoke_def Relay_def plain_transport_def)

lemma three_relays_ok: "registry_ok three_relays"
  by (simp add: three_relays_eq registry_ok_def values_of_def)

lemma three_relays_values: "values_of three_relays = [0, Suc 0, 2]"
  by (simp add: three_relays_eq values_of_def)

lemma three_relays_lookup:
  "map_of (relays three_relays) ''wss://a'' = Some 0"
  "map_of (relays three_relays) ''wss://b'' = Some (Suc 0)"
  "map_of (relays three_relays) ''wss://c'' = Some 2"
  "map_of (relays three_relays) ''wss://x'' = None"
  by (simp_all add: three_relays_eq)

lemma three_relays_policies:
  "policy (objs three_relays ! 0) = read_only"
  "policy (objs three_relays ! Suc 0) = write_only"
  "policy (objs three_relays ! 2) = read_write"
  by (simp_all add: three_relays_eq)

lemma policies [simp]:
  "should_read read_only" "\<not> should_write read_only"
  "\<not> should_read write_only" "should_write write_only"
  "should_read read_write" "should_write read_write"
  by (simp_all add: read_only_def write_only_def read_write_def)

lemma three_relays_length: "length (objs three_relays) = 3"
  by (simp add: three_relays_eq)

lemma one_down_eq:
  "one_down =
     \<lparr>connection_monitor_interval_secs = 5, stop_threads = False,
      relays = [(''wss://d'', 0), (''wss://e'', 1)],
      objs = [\<lparr>url = ''wss://d'', policy = read_write, subscriptions = [], connected = True\<rparr>,
              \<lparr>url = ''wss://e'', policy = read_write, subscriptions = [], connected = False\<rparr>],
      trace = [Acquire, Call 0 (Connect False), Release,
               Acquire, Call 1 (Connect False), Release]\<rparr>"
  by (simp add: one_down_def add_relay_def post_init_def with_lock_def acquire_def
        release_def invoke_def Relay_def plain_transport_def first_connect_fails_def)

lemma one_down_ok: "registry_ok one_down"
  by (simp add: one_down_eq registry_ok_def values_of_def)

lemma one_down_values: "values_of one_down = [0, Suc 0]"
  by (simp add: one_down_eq values_of_def)

lemma one_down_lookup: "map_of (relays one_down) ''wss://e'' = Some (Suc 0)"
  by (simp add: one_down_eq)

lemma one_down_at_e:
  "objs one_down ! Suc 0 =
     \<lparr>url = ''wss://e'', policy = read_write, subscriptions = [], connected = False\<rparr>"
  by (simp add: one_down_eq)

lemma subscribed_ok: "registry_ok subscribed"
proof -
  have "registry_ok subscribed = registry_ok three_relays"
    by (rule registry_ok_cong)
       (simp_all add: subscribed_def add_subscription_on_all_relays_loop with_lock_def)
  with three_relays_ok show ?thesis by simp
qed

lemma subscribed_lookup: "map_of (relays subscribed) ''wss://a'' = Some 0"
  by (simp add: subscribed_def add_subscription_on_all_relays_loop locked_loop_relays
        three_relays_lookup)

lemma subscribed_at_a: "subscriptions (objs subscribed ! 0) = [(''sub1'', [''kinds=1''])]"
proof -
  have "0 \<in> set (values_of three_relays)"
    by (simp add: three_relays_values)
  with three_relays_ok show ?thesis
    by (simp add: subscribed_def add_subscription_on_all_relays_loop locked_loop_objs_same
          three_relays_policies)
       (simp add: three_relays_eq)
qed

section \<open>The claims\<close>

text \<open>
  C1. \<^verbatim>\<open>publish_event\<close> on an event without signature raises (the spec's
  \<open>ValidationError\<close>) and leaves the manager as it was, so nothing is sent; on an event
  whose signature does not verify it raises likewise; on an event with a valid signature
  it raises nothing, makes exactly one call, \<^verbatim>\<open>publish\<close> of the \<open>EVENT\<close> message, on every
  registered relay whose policy has \<open>should_write\<close>, and no call on a registered relay
  whose policy has not.
\<close>

theorem publish_event_validates_then_fans_out:
  assumes "registry_ok m"
  shows "(signature e = None \<longrightarrow>
            publish_event tr verify e m = (Some (RelayException (Must_be_signed (ev_id e))), m) \<and>
            fails_with (publish_event tr verify e m) ValidationError) \<and>
         (\<forall>s. signature e = Some s \<and> \<not> verify e \<longrightarrow>
            publish_event tr verify e m =
              (Some (RelayException (Failed_to_verify (ev_id e) s)), m) \<and>
            fails_with (publish_event tr verify e m) ValidationError) \<and>
         (signature e \<noteq> None \<and> verify e \<longrightarrow>
            fst (publish_event tr verify e m) = None \<and>
            (\<forall>r\<in>set (values_of m).
               calls_on r (emitted m (snd (publish_event tr verify e m))) =
                 (if should_write (policy (objs m ! r)) then [Publish (EVENT e)] else [])))"
proof (intro conjI allI impI ballI)
  assume "signature e = None"
  then show "publish_event tr verify e m = (Some (RelayException (Must_be_signed (ev_id e))), m)"
    and "fails_with (publish_event tr verify e m) ValidationError"
    by (simp_all add: publish_event_def fails_with_def)
next
  fix s
  assume "signature e = Some s \<and> \<not> verify e"
  then show "publish_event tr verify e m =
               (Some (RelayException (Failed_to_verify (ev_id e) s)), m)"
    and "fails_with (publish_event tr verify e m) ValidationError"
    by (simp_all add: publish_event_def fails_with_def)
next
  assume ok: "signature e \<noteq> None \<and> verify e"
  then show "fst (publish_event tr verify e m) = None"
    by (auto simp: publish_event_def)
  fix r
  assume "r \<in> set (values_of m)"
  with assms ok
  show "calls_on r (emitted m (snd (publish_event tr verify e m))) =
          (if should_write (policy (objs m ! r)) then [Publish (EVENT e)] else [])"
    by (auto simp: publish_event_def publish_body_on_relay locked_loop_calls_on)
qed

theorem publish_event_validates_then_fans_out_witness:
  "registry_ok three_relays \<and>
   publish_event plain_transport (\<lambda>e. True) unsigned_event three_relays =
     (Some (RelayException (Must_be_signed ''e2'')), three_relays) \<and>
   publish_event plain_transport (\<lambda>e. False) signed_event three_relays =
     (Some (RelayException (Failed_to_verify ''e1'' ''5167'')), three_relays) \<and>
   fst (publish_event plain_transport (\<lambda>e. True) signed_event three_relays) = None \<and>
   calls_on 0 (emitted three_relays
     (snd (publish_event plain_transport (\<lambda>e. True) signed_event three_relays))) = [] \<and>
   calls_on 1 (emitted three_relays
     (snd (publish_event plain_transport (\<lambda>e. True) signed_event three_relays))) =
     [Publish (EVENT signed_event)] \<and>
   calls_on 2 (emitted three_relays
     (snd (publish_event plain_transport (\<lambda>e. True) signed_event three_relays))) =
     [Publish (EVENT signed_event)]"
proof -
  have vals: "values_of three_relays = [0, 1, 2]"
    by (simp add: three_relays_eq values_of_def)
  have pol: "should_write (policy (objs three_relays ! 0)) = False"
    "should_write (policy (objs three_relays ! Suc 0)) = True"
    "should_write (policy (objs three_relays ! 2)) = True"
    by (simp_all add: three_relays_eq read_only_def write_only_def read_write_def)
  have sig: "signature unsigned_event = None" "signature signed_event = Some ''5167''"
    "ev_id unsigned_event = ''e2''" "ev_id signed_event = ''e1''"
    by (simp_all add: unsigned_event_def signed_event_def)
  show ?thesis
    using three_relays_ok
      publish_event_validates_then_fans_out [OF three_relays_ok,
        of unsigned_event plain_transport "\<lambda>e. True"]
      publish_event_validates_then_fans_out [OF three_relays_ok,
        of signed_event plain_transport "\<lambda>e. False"]
      publish_event_validates_then_fans_out [OF three_relays_ok,
        of signed_event plain_transport "\<lambda>e. True"]
    by (simp add: vals pol sig)
qed

text \<open>
  C2. \<^verbatim>\<open>add_subscription_on_relay\<close> raises (the spec's \<open>PolicyError\<close>) when the url is
  not in the registry, and when it is but the relay's policy has no \<open>should_read\<close>. When
  the url is registered and the policy has \<open>should_read\<close>, it raises nothing, exactly one
  message is sent to that relay, the \<open>REQ\<close> of the subscription, no call is made on any
  other relay, and the subscription is recorded on the relay under its id.
\<close>

theorem add_subscription_on_relay_checks_policy:
  assumes "registry_ok m"
  shows "(map_of (relays m) u = None \<longrightarrow>
            fst (add_subscription_on_relay tr u i f m) =
              Some (RelayException (Invalid_relay_url u)) \<and>
            fails_with (add_subscription_on_relay tr u i f m) PolicyError) \<and>
         (\<forall>r. map_of (relays m) u = Some r \<and> \<not> should_read (policy (objs m ! r)) \<longrightarrow>
            fst (add_subscription_on_relay tr u i f m) =
              Some (RelayException (Not_configured_to_read u)) \<and>
            fails_with (add_subscription_on_relay tr u i f m) PolicyError) \<and>
         (\<forall>r. map_of (relays m) u = Some r \<and> should_read (policy (objs m ! r)) \<longrightarrow>
            fst (add_subscription_on_relay tr u i f m) = None \<and>
            calls_on r (emitted m (snd (add_subscription_on_relay tr u i f m))) =
              [AddSubscription i f, Publish (REQ i f)] \<and>
            sent (calls_on r (emitted m (snd (add_subscription_on_relay tr u i f m)))) =
              [REQ i f] \<and>
            (\<forall>r'. r' \<noteq> r \<longrightarrow>
               calls_on r' (emitted m (snd (add_subscription_on_relay tr u i f m))) = []) \<and>
            map_of (subscriptions (objs (snd (add_subscription_on_relay tr u i f m)) ! r)) i =
              Some f)"
proof (intro conjI allI impI)
  assume "map_of (relays m) u = None"
  then show "fst (add_subscription_on_relay tr u i f m) =
               Some (RelayException (Invalid_relay_url u))"
    and "fails_with (add_subscription_on_relay tr u i f m) PolicyError"
    by (simp_all add: add_subscription_on_relay_unknown fails_with_def)
next
  fix r
  assume "map_of (relays m) u = Some r \<and> \<not> should_read (policy (objs m ! r))"
  then show "fst (add_subscription_on_relay tr u i f m) =
               Some (RelayException (Not_configured_to_read u))"
    and "fails_with (add_subscription_on_relay tr u i f m) PolicyError"
    by (simp_all add: add_subscription_on_relay_unreadable fails_with_def)
next
  fix r
  assume a: "map_of (relays m) u = Some r \<and> should_read (policy (objs m ! r))"
  then have eq: "add_subscription_on_relay tr u i f m =
     (None,
      m\<lparr>objs := (objs m)[r := relay_method tr (Publish (REQ i f))
                               (relay_method tr (AddSubscription i f) (objs m ! r))],
        trace := trace m @
          [Acquire, Call r (AddSubscription i f), Call r (Publish (REQ i f)), Release]\<rparr>)"
    by (simp add: add_subscription_on_relay_readable)
  from assms a have len: "r < length (objs m)"
    by (blast intro: registry_ok_lookup)
  show "fst (add_subscription_on_relay tr u i f m) = None"
    by (simp add: eq)
  show "calls_on r (emitted m (snd (add_subscription_on_relay tr u i f m))) =
          [AddSubscription i f, Publish (REQ i f)]"
    by (simp add: eq)
  show "sent (calls_on r (emitted m (snd (add_subscription_on_relay tr u i f m)))) = [REQ i f]"
    by (simp add: eq)
  show "map_of (subscriptions (objs (snd (add_subscription_on_relay tr u i f m)) ! r)) i = Some f"
    using len by (simp add: eq update_conv')
  fix r'
  assume "r' \<noteq> r"
  then show "calls_on r' (emitted m (snd (add_subscription_on_relay tr u i f m))) = []"
    by (simp add: eq)
qed

theorem add_subscription_on_relay_checks_policy_witness:
  "registry_ok three_relays \<and>
   fails_with (add_subscription_on_relay plain_transport ''wss://x'' ''sub1'' [''kinds=1'']
     three_relays) PolicyError \<and>
   fails_with (add_subscription_on_relay plain_transport ''wss://b'' ''sub1'' [''kinds=1'']
     three_relays) PolicyError \<and>
   fst (add_subscription_on_relay plain_transport ''wss://a'' ''sub1'' [''kinds=1'']
     three_relays) = None \<and>
   sent (calls_on 0 (emitted three_relays
     (snd (add_subscription_on_relay plain_transport ''wss://a'' ''sub1'' [''kinds=1'']
       three_relays)))) = [REQ ''sub1'' [''kinds=1'']] \<and>
   map_of (subscriptions (objs
     (snd (add_subscription_on_relay plain_transport ''wss://a'' ''sub1'' [''kinds=1'']
       three_relays)) ! 0)) ''sub1'' = Some [''kinds=1'']"
  using three_relays_ok
    add_subscription_on_relay_checks_policy [OF three_relays_ok,
      where u = "''wss://x''" and tr = plain_transport and i = "''sub1''" and f = "[''kinds=1'']"]
    add_subscription_on_relay_checks_policy [OF three_relays_ok,
      where u = "''wss://b''" and tr = plain_transport and i = "''sub1''" and f = "[''kinds=1'']"]
    add_subscription_on_relay_checks_policy [OF three_relays_ok,
      where u = "''wss://a''" and tr = plain_transport and i = "''sub1''" and f = "[''kinds=1'']"]
  by (simp add: three_relays_lookup three_relays_policies)

text \<open>
  C3. \<^verbatim>\<open>add_subscription_on_all_relays\<close>, in any state of the registry and so whatever
  the order in which the relays were added: on every registered relay whose policy has
  \<open>should_read\<close> the subscription is recorded and the \<open>REQ\<close> message is sent, and these
  are the only calls on it; on every registered relay whose policy has not, no call is
  made and the relay object is as before. The operation has no exceptional result, and
  the registry is unchanged.
\<close>

theorem add_subscription_on_all_relays_reaches_readers:
  assumes "registry_ok m"
  shows "relays (add_subscription_on_all_relays tr i f m) = relays m \<and>
         (\<forall>r\<in>set (values_of m).
            (should_read (policy (objs m ! r)) \<longrightarrow>
               calls_on r (emitted m (add_subscription_on_all_relays tr i f m)) =
                 [AddSubscription i f, Publish (REQ i f)] \<and>
               map_of (subscriptions (objs (add_subscription_on_all_relays tr i f m) ! r)) i =
                 Some f) \<and>
            (\<not> should_read (policy (objs m ! r)) \<longrightarrow>
               calls_on r (emitted m (add_subscription_on_all_relays tr i f m)) = [] \<and>
               objs (add_subscription_on_all_relays tr i f m) ! r = objs m ! r))"
proof (intro conjI ballI impI)
  show "relays (add_subscription_on_all_relays tr i f m) = relays m"
    by (simp add: add_subscription_on_all_relays_loop locked_loop_relays)
next
  fix r
  assume r: "r \<in> set (values_of m)"
  note calls = locked_loop_calls_on [OF assms r]
  note obj = locked_loop_objs_same [OF assms r]
  {
    assume "should_read (policy (objs m ! r))"
    then show "calls_on r (emitted m (add_subscription_on_all_relays tr i f m)) =
                 [AddSubscription i f, Publish (REQ i f)]"
      and "map_of (subscriptions (objs (add_subscription_on_all_relays tr i f m) ! r)) i = Some f"
      by (simp_all add: add_subscription_on_all_relays_loop calls obj update_conv')
  next
    assume "\<not> should_read (policy (objs m ! r))"
    then show "calls_on r (emitted m (add_subscription_on_all_relays tr i f m)) = []"
      and "objs (add_subscription_on_all_relays tr i f m) ! r = objs m ! r"
      by (simp_all add: add_subscription_on_all_relays_loop calls obj)
  }
qed

theorem add_subscription_on_all_relays_reaches_readers_witness:
  "registry_ok three_relays \<and>
   calls_on 0 (emitted three_relays
     (add_subscription_on_all_relays plain_transport ''sub1'' [''kinds=1''] three_relays)) =
     [AddSubscription ''sub1'' [''kinds=1''], Publish (REQ ''sub1'' [''kinds=1''])] \<and>
   calls_on (Suc 0) (emitted three_relays
     (add_subscription_on_all_relays plain_transport ''sub1'' [''kinds=1''] three_relays)) = [] \<and>
   objs (add_subscription_on_all_relays plain_transport ''sub1'' [''kinds=1''] three_relays) ! Suc 0 =
     objs three_relays ! Suc 0 \<and>
   calls_on 2 (emitted three_relays
     (add_subscription_on_all_relays plain_transport ''sub1'' [''kinds=1''] three_relays)) =
     [AddSubscription ''sub1'' [''kinds=1''], Publish (REQ ''sub1'' [''kinds=1''])] \<and>
   map_of (subscriptions
     (objs (add_subscription_on_all_relays plain_transport ''sub1'' [''kinds=1''] three_relays) ! 2))
     ''sub1'' = Some [''kinds=1'']"
  using three_relays_ok
    add_subscription_on_all_relays_reaches_readers [OF three_relays_ok,
      where tr = plain_transport and i = "''sub1''" and f = "[''kinds=1'']"]
  by (simp add: three_relays_values three_relays_policies)

text \<open>
  C4. \<^verbatim>\<open>close_subscription_on_relay\<close> raises (the spec's \<open>PolicyError\<close>) when the url is
  not in the registry. When it is, whatever the relay's policy, it raises nothing, the
  record of the subscription is removed from the relay, and exactly one message is sent
  to it, \<^verbatim>\<open>["CLOSE", id]\<close>.
\<close>

theorem close_subscription_on_relay_ignores_read_policy:
  assumes "registry_ok m"
  shows "(map_of (relays m) u = None \<longrightarrow>
            fst (close_subscription_on_relay tr u i m) =
              Some (RelayException (Invalid_relay_url u)) \<and>
            fails_with (close_subscription_on_relay tr u i m) PolicyError) \<and>
         (\<forall>r. map_of (relays m) u = Some r \<longrightarrow>
            fst (close_subscription_on_relay tr u i m) = None \<and>
            calls_on r (emitted m (snd (close_subscription_on_relay tr u i m))) =
              [CloseSubscription i, Publish (CLOSE i)] \<and>
            subscriptions (objs (snd (close_subscription_on_relay tr u i m)) ! r) =
              AList.delete i (subscriptions (objs m ! r)) \<and>
            map_of (subscriptions (objs (snd (close_subscription_on_relay tr u i m)) ! r)) i =
              None \<and>
            sent (calls_on r (emitted m (snd (close_subscription_on_relay tr u i m)))) =
              [CLOSE i])"
proof (intro conjI allI impI)
  assume "map_of (relays m) u = None"
  then show "fst (close_subscription_on_relay tr u i m) =
               Some (RelayException (Invalid_relay_url u))"
    and "fails_with (close_subscription_on_relay tr u i m) PolicyError"
    by (simp_all add: close_subscription_on_relay_unknown fails_with_def)
next
  fix r
  assume a: "map_of (relays m) u = Some r"
  note eq = close_subscription_on_relay_known [OF a, of tr i]
  from assms a have len: "r < length (objs m)"
    by (rule registry_ok_lookup)
  show "fst (close_subscription_on_relay tr u i m) = None"
    by (simp add: eq)
  show "calls_on r (emitted m (snd (close_subscription_on_relay tr u i m))) =
          [CloseSubscription i, Publish (CLOSE i)]"
    by (simp add: eq)
  show "subscriptions (objs (snd (close_subscription_on_relay tr u i m)) ! r) =
          AList.delete i (subscriptions (objs m ! r))"
    using len by (simp add: eq)
  show "map_of (subscriptions (objs (snd (close_subscription_on_relay tr u i m)) ! r)) i = None"
    using len by (simp add: eq delete_conv')
  show "sent (calls_on r (emitted m (snd (close_subscription_on_relay tr u i m)))) = [CLOSE i]"
    by (simp add: eq)
qed

theorem close_subscription_on_relay_ignores_read_policy_witness:
  "registry_ok three_relays \<and> registry_ok subscribed \<and>
   fails_with (close_subscription_on_relay plain_transport ''wss://x'' ''sub1'' three_relays)
     PolicyError \<and>
   \<not> should_read (policy (objs three_relays ! Suc 0)) \<and>
   fst (close_subscription_on_relay plain_transport ''wss://b'' ''sub1'' three_relays) = None \<and>
   sent (calls_on (Suc 0) (emitted three_relays
     (snd (close_subscription_on_relay plain_transport ''wss://b'' ''sub1'' three_relays)))) =
     [CLOSE ''sub1''] \<and>
   subscriptions (objs subscribed ! 0) = [(''sub1'', [''kinds=1''])] \<and>
   subscriptions (objs
     (snd (close_subscription_on_relay plain_transport ''wss://a'' ''sub1'' subscribed)) ! 0) = []"
  using three_relays_ok subscribed_ok
    close_subscription_on_relay_ignores_read_policy [OF three_relays_ok,
      where u = "''wss://x''" and tr = plain_transport and i = "''sub1''"]
    close_subscription_on_relay_ignores_read_policy [OF three_relays_ok,
      where u = "''wss://b''" and tr = plain_transport and i = "''sub1''"]
    close_subscription_on_relay_ignores_read_policy [OF subscribed_ok,
      where u = "''wss://a''" and tr = plain_transport and i = "''sub1''"]
  by (simp add: three_relays_lookup three_relays_policies subscribed_lookup subscribed_at_a)

text \<open>
  C5. After \<^verbatim>\<open>add_relay\<close> the url is in the registry, bound to the relay object just
  built; the keys of the registry are still distinct; the only call made is one plain
  \<^verbatim>\<open>connect()\<close> on the new relay. A relay that was registered under the url before is a
  different object, it is left as it was and no call is made on it: in particular it is
  not closed.
\<close>

theorem add_relay_registers_and_connects:
  assumes "registry_ok m"
  shows "map_of (relays (add_relay tr u p m)) u = Some (length (objs m)) \<and>
         distinct (map fst (relays (add_relay tr u p m))) \<and>
         objs (add_relay tr u p m) ! length (objs m) =
           relay_method tr (Connect False) (Relay u p) \<and>
         emitted m (add_relay tr u p m) =
           [Acquire, Call (length (objs m)) (Connect False), Release] \<and>
         calls_on (length (objs m)) (emitted m (add_relay tr u p m)) = [Connect False] \<and>
         (\<forall>r. map_of (relays m) u = Some r \<longrightarrow>
            r \<noteq> length (objs m) \<and>
            objs (add_relay tr u p m) ! r = objs m ! r \<and>
            calls_on r (emitted m (add_relay tr u p m)) = [])"
proof (intro conjI allI impI)
  show "map_of (relays (add_relay tr u p m)) u = Some (length (objs m))"
    by (simp add: add_relay_relays update_conv')
  from assms have "distinct (map fst (relays m))"
    by (simp add: registry_ok_def)
  then show "distinct (map fst (relays (add_relay tr u p m)))"
    by (simp add: add_relay_relays distinct_update)
  show "objs (add_relay tr u p m) ! length (objs m) = relay_method tr (Connect False) (Relay u p)"
    by (rule add_relay_objs_new)
  show e: "emitted m (add_relay tr u p m) =
             [Acquire, Call (length (objs m)) (Connect False), Release]"
    by (rule emitted_trace) (rule add_relay_trace)
  show "calls_on (length (objs m)) (emitted m (add_relay tr u p m)) = [Connect False]"
    by (simp add: e)
  fix r
  assume "map_of (relays m) u = Some r"
  with assms have len: "r < length (objs m)"
    by (rule registry_ok_lookup)
  then show "r \<noteq> length (objs m)" by simp
  from len show "objs (add_relay tr u p m) ! r = objs m ! r"
    by (rule add_relay_objs_old)
  from len show "calls_on r (emitted m (add_relay tr u p m)) = []"
    by (simp add: e)
qed

theorem add_relay_registers_and_connects_witness:
  "registry_ok three_relays \<and>
   map_of (relays three_relays) ''wss://a'' = Some 0 \<and>
   map_of (relays (add_relay plain_transport ''wss://a'' read_write three_relays)) ''wss://a'' =
     Some 3 \<and>
   calls_on 3 (emitted three_relays
     (add_relay plain_transport ''wss://a'' read_write three_relays)) = [Connect False] \<and>
   calls_on 0 (emitted three_relays
     (add_relay plain_transport ''wss://a'' read_write three_relays)) = [] \<and>
   objs (add_relay plain_transport ''wss://a'' read_write three_relays) ! 0 =
     objs three_relays ! 0"
  using three_relays_ok
    add_relay_registers_and_connects [OF three_relays_ok,
      where tr = plain_transport and u = "''wss://a''" and p = read_write]
  by (simp add: three_relays_lookup three_relays_length)

text \<open>
  C6. \<^verbatim>\<open>remove_relay\<close> on a url that is not registered only takes and releases the lock:
  the registry and all relay objects are unchanged and no call is made on any relay. On a
  registered url it removes the entry and makes exactly one call on the relay that was
  bound to it, \<^verbatim>\<open>close()\<close>. The operation has no exceptional result.
\<close>

theorem remove_relay_absent_is_noop_present_closes:
  assumes "registry_ok m"
  shows "(map_of (relays m) u = None \<longrightarrow>
            remove_relay tr u m = m\<lparr>trace := trace m @ [Acquire, Release]\<rparr> \<and>
            relays (remove_relay tr u m) = relays m \<and>
            objs (remove_relay tr u m) = objs m \<and>
            (\<forall>r. calls_on r (emitted m (remove_relay tr u m)) = [])) \<and>
         (\<forall>r. map_of (relays m) u = Some r \<longrightarrow>
            relays (remove_relay tr u m) = AList.delete u (relays m) \<and>
            map_of (relays (remove_relay tr u m)) u = None \<and>
            calls_on r (emitted m (remove_relay tr u m)) = [CloseTransport] \<and>
            objs (remove_relay tr u m) ! r = relay_method tr CloseTransport (objs m ! r))"
proof (intro conjI allI impI)
  assume a: "map_of (relays m) u = None"
  then show "remove_relay tr u m = m\<lparr>trace := trace m @ [Acquire, Release]\<rparr>"
    by (rule remove_relay_absent)
  from a show "relays (remove_relay tr u m) = relays m"
    and "objs (remove_relay tr u m) = objs m"
    by (simp_all add: remove_relay_absent)
  fix r
  from a show "calls_on r (emitted m (remove_relay tr u m)) = []"
    by (simp add: remove_relay_absent)
next
  fix r
  assume a: "map_of (relays m) u = Some r"
  with assms have len: "r < length (objs m)"
    by (rule registry_ok_lookup)
  from a show "relays (remove_relay tr u m) = AList.delete u (relays m)"
    by (simp add: remove_relay_present)
  from a show "map_of (relays (remove_relay tr u m)) u = None"
    by (simp add: remove_relay_present delete_conv')
  from a show "calls_on r (emitted m (remove_relay tr u m)) = [CloseTransport]"
    by (simp add: remove_relay_present)
  from a len show "objs (remove_relay tr u m) ! r = relay_method tr CloseTransport (objs m ! r)"
    by (simp add: remove_relay_present)
qed

theorem remove_relay_absent_is_noop_present_closes_witness:
  "registry_ok three_relays \<and>
   remove_relay plain_transport ''wss://x'' three_relays =
     three_relays\<lparr>trace := trace three_relays @ [Acquire, Release]\<rparr> \<and>
   map_of (relays (remove_relay plain_transport ''wss://b'' three_relays)) ''wss://b'' = None \<and>
   calls_on (Suc 0) (emitted three_relays (remove_relay plain_transport ''wss://b'' three_relays)) =
     [CloseTransport]"
  using three_relays_ok
    remove_relay_absent_is_noop_present_closes [OF three_relays_ok,
      where u = "''wss://x''" and tr = plain_transport]
    remove_relay_absent_is_noop_present_closes [OF three_relays_ok,
      where u = "''wss://b''" and tr = plain_transport]
  by (simp add: three_relays_lookup delete_conv')

text \<open>
  C7. \<^verbatim>\<open>close_all_relay_connections\<close> raises nothing (the lookup of each key succeeds),
  leaves the registry exactly as it was, and makes exactly one call on every registered
  relay, \<^verbatim>\<open>close()\<close>.
\<close>

theorem close_all_relay_connections_keeps_registry:
  assumes "registry_ok m"
  shows "fst (close_all_relay_connections tr m) = None \<and>
         relays (snd (close_all_relay_connections tr m)) = relays m \<and>
         (\<forall>r\<in>set (values_of m).
            calls_on r (emitted m (snd (close_all_relay_connections tr m))) = [CloseTransport] \<and>
            objs (snd (close_all_relay_connections tr m)) ! r =
              relay_method tr CloseTransport (objs m ! r))"
proof (intro conjI ballI)
  note eq = close_all_relay_connections_loop [OF assms, of tr]
  show "fst (close_all_relay_connections tr m) = None"
    by (simp add: eq)
  show "relays (snd (close_all_relay_connections tr m)) = relays m"
    by (simp add: eq locked_loop_relays)
  fix r
  assume r: "r \<in> set (values_of m)"
  show "calls_on r (emitted m (snd (close_all_relay_connections tr m))) = [CloseTransport]"
    by (simp add: eq locked_loop_calls_on [OF assms r])
  show "objs (snd (close_all_relay_connections tr m)) ! r =
          relay_method tr CloseTransport (objs m ! r)"
    by (simp add: eq locked_loop_objs_same [OF assms r])
qed

theorem close_all_relay_connections_keeps_registry_witness:
  "registry_ok three_relays \<and>
   fst (close_all_relay_connections plain_transport three_relays) = None \<and>
   relays (snd (close_all_relay_connections plain_transport three_relays)) =
     relays three_relays \<and>
   calls_on 0 (emitted three_relays
     (snd (close_all_relay_connections plain_transport three_relays))) = [CloseTransport] \<and>
   calls_on (Suc 0) (emitted three_relays
     (snd (close_all_relay_connections plain_transport three_relays))) = [CloseTransport] \<and>
   calls_on 2 (emitted three_relays
     (snd (close_all_relay_connections plain_transport three_relays))) = [CloseTransport]"
  using three_relays_ok
    close_all_relay_connections_keeps_registry [OF three_relays_ok, where tr = plain_transport]
  by (simp add: three_relays_values)

text \<open>
  C8. One pass of the connection monitor: on every registered relay that reports not
  connected exactly one call is made, \<^verbatim>\<open>connect(True)\<close>, the reconnect variant; on every
  registered relay that reports connected no call is made. The registry is unchanged.
\<close>

theorem monitor_cycle_reconnects_the_disconnected:
  assumes "registry_ok m"
  shows "relays (relay_connection_monitor_cycle tr m) = relays m \<and>
         (\<forall>r\<in>set (values_of m).
            calls_on r (emitted m (relay_connection_monitor_cycle tr m)) =
              (if connected (objs m ! r) then [] else [Connect True]))"
proof (intro conjI ballI)
  show "relays (relay_connection_monitor_cycle tr m) = relays m"
    by (simp add: relay_connection_monitor_cycle_loop locked_loop_relays)
  fix r
  assume r: "r \<in> set (values_of m)"
  show "calls_on r (emitted m (relay_connection_monitor_cycle tr m)) =
          (if connected (objs m ! r) then [] else [Connect True])"
    by (simp add: relay_connection_monitor_cycle_loop locked_loop_calls_on [OF assms r])
qed

theorem monitor_cycle_reconnects_the_disconnected_witness:
  "registry_ok one_down \<and>
   connected (objs one_down ! 0) \<and> \<not> connected (objs one_down ! Suc 0) \<and>
   calls_on 0 (emitted one_down (relay_connection_monitor_cycle first_connect_fails one_down)) =
     [] \<and>
   calls_on (Suc 0)
     (emitted one_down (relay_connection_monitor_cycle first_connect_fails one_down)) =
     [Connect True]"
proof -
  have vals: "values_of one_down = [0, Suc 0]"
    by (simp add: one_down_eq values_of_def)
  have conn: "connected (objs one_down ! 0)" "\<not> connected (objs one_down ! Suc 0)"
    by (simp_all add: one_down_eq)
  show ?thesis
    using one_down_ok conn
      monitor_cycle_reconnects_the_disconnected [OF one_down_ok, where tr = first_connect_fails]
    by (simp add: vals)
qed

text \<open>
  C9. A successful \<^verbatim>\<open>add_subscription_on_relay\<close> appends to the trace: the lock is
  acquired, the subscription is recorded on the relay, the \<open>REQ\<close> message is published to
  it, the lock is released. In the state, the relay object becomes what \<^verbatim>\<open>publish\<close> makes
  of the relay that \<^verbatim>\<open>add_subscription\<close> has already changed: the relay the request is
  sent on holds the record of the subscription, and so does the relay in the end.
  \<^verbatim>\<open>add_subscription_on_all_relays\<close> appends: the lock is acquired; for each registered
  relay in turn that may be read from, the record followed at once by the request; the
  lock is released. In the state, every such relay object changes in the same way. So the
  subscription is in the relay's subscription set before the request is sent, and both
  effects lie between the same acquisition and release of the lock.
\<close>

theorem subscription_recorded_before_request_sent:
  assumes "registry_ok m"
  shows "(\<forall>r. map_of (relays m) u = Some r \<and> should_read (policy (objs m ! r)) \<longrightarrow>
            emitted m (snd (add_subscription_on_relay tr u i f m)) =
              [Acquire, Call r (AddSubscription i f), Call r (Publish (REQ i f)), Release] \<and>
            objs (snd (add_subscription_on_relay tr u i f m)) =
              (objs m)[r := relay_method tr (Publish (REQ i f))
                              (relay_method tr (AddSubscription i f) (objs m ! r))] \<and>
            map_of (subscriptions (relay_method tr (AddSubscription i f) (objs m ! r))) i =
              Some f \<and>
            map_of (subscriptions (objs (snd (add_subscription_on_relay tr u i f m)) ! r)) i =
              Some f) \<and>
         emitted m (add_subscription_on_all_relays tr i f m) =
           Acquire #
           concat (map (\<lambda>r. if should_read (policy (objs m ! r))
                             then [Call r (AddSubscription i f), Call r (Publish (REQ i f))]
                             else [])
                       (values_of m)) @
           [Release] \<and>
         (\<forall>r\<in>set (values_of m). should_read (policy (objs m ! r)) \<longrightarrow>
            objs (add_subscription_on_all_relays tr i f m) ! r =
              relay_method tr (Publish (REQ i f))
                (relay_method tr (AddSubscription i f) (objs m ! r)) \<and>
            map_of (subscriptions (relay_method tr (AddSubscription i f) (objs m ! r))) i =
              Some f \<and>
            map_of (subscriptions (objs (add_subscription_on_all_relays tr i f m) ! r)) i =
              Some f)"
proof (intro conjI allI impI ballI)
  fix r
  assume a: "map_of (relays m) u = Some r \<and> should_read (policy (objs m ! r))"
  then have eq: "add_subscription_on_relay tr u i f m =
     (None,
      m\<lparr>objs := (objs m)[r := relay_method tr (Publish (REQ i f))
                               (relay_method tr (AddSubscription i f) (objs m ! r))],
        trace := trace m @
          [Acquire, Call r (AddSubscription i f), Call r (Publish (REQ i f)), Release]\<rparr>)"
    by (simp add: add_subscription_on_relay_readable)
  from assms a have len: "r < length (objs m)"
    by (blast intro: registry_ok_lookup)
  show "emitted m (snd (add_subscription_on_relay tr u i f m)) =
          [Acquire, Call r (AddSubscription i f), Call r (Publish (REQ i f)), Release]"
    by (simp add: eq)
  show "objs (snd (add_subscription_on_relay tr u i f m)) =
          (objs m)[r := relay_method tr (Publish (REQ i f))
                          (relay_method tr (AddSubscription i f) (objs m ! r))]"
    by (simp add: eq del: relay_method.simps)
  show "map_of (subscriptions (relay_method tr (AddSubscription i f) (objs m ! r))) i = Some f"
    by (simp add: update_conv')
  show "map_of (subscriptions (objs (snd (add_subscription_on_relay tr u i f m)) ! r)) i = Some f"
    using len by (simp add: eq update_conv')
next
  have eq: "map (\<lambda>r. map (Call r) (if should_read (policy (objs m ! r))
                                then [AddSubscription i f, Publish (REQ i f)] else []))
            (values_of m) =
        map (\<lambda>r. if should_read (policy (objs m ! r))
                  then [Call r (AddSubscription i f), Call r (Publish (REQ i f))] else [])
            (values_of m)"
    by (rule map_cong) simp_all
  from assms
  show "emitted m (add_subscription_on_all_relays tr i f m) =
          Acquire #
          concat (map (\<lambda>r. if should_read (policy (objs m ! r))
                            then [Call r (AddSubscription i f), Call r (Publish (REQ i f))]
                            else [])
                      (values_of m)) @
          [Release]"
    by (simp add: add_subscription_on_all_relays_loop locked_loop_emitted eq)
next
  fix r
  assume r: "r \<in> set (values_of m)" and rd: "should_read (policy (objs m ! r))"
  note obj = locked_loop_objs_same [OF assms r]
  from rd show "objs (add_subscription_on_all_relays tr i f m) ! r =
          relay_method tr (Publish (REQ i f))
            (relay_method tr (AddSubscription i f) (objs m ! r))"
    by (simp add: add_subscription_on_all_relays_loop obj del: relay_method.simps)
  show "map_of (subscriptions (relay_method tr (AddSubscription i f) (objs m ! r))) i = Some f"
    by (simp add: update_conv')
  from rd show "map_of (subscriptions (objs (add_subscription_on_all_relays tr i f m) ! r)) i =
          Some f"
    by (simp add: add_subscription_on_all_relays_loop obj update_conv')
qed

theorem subscription_recorded_before_request_sent_witness:
  "registry_ok three_relays \<and> registry_ok one_down \<and>
   emitted three_relays
     (snd (add_subscription_on_relay plain_transport ''wss://c'' ''sub1'' [''kinds=1'']
       three_relays)) =
     [Acquire, Call 2 (AddSubscription ''sub1'' [''kinds=1'']),
      Call 2 (Publish (REQ ''sub1'' [''kinds=1''])), Release] \<and>
   map_of (subscriptions (objs
     (snd (add_subscription_on_relay plain_transport ''wss://c'' ''sub1'' [''kinds=1'']
       three_relays)) ! 2)) ''sub1'' = Some [''kinds=1''] \<and>
   emitted three_relays
     (add_subscription_on_all_relays plain_transport ''sub1'' [''kinds=1''] three_relays) =
     [Acquire,
      Call 0 (AddSubscription ''sub1'' [''kinds=1'']),
      Call 0 (Publish (REQ ''sub1'' [''kinds=1''])),
      Call 2 (AddSubscription ''sub1'' [''kinds=1'']),
      Call 2 (Publish (REQ ''sub1'' [''kinds=1''])),
      Release] \<and>
   map_of (subscriptions (objs
     (add_subscription_on_all_relays plain_transport ''sub1'' [''kinds=1''] three_relays) ! 0))
     ''sub1'' = Some [''kinds=1''] \<and>
   objs (snd (add_subscription_on_relay request_sees_record ''wss://e'' ''sub1'' [''kinds=1'']
     one_down)) ! Suc 0 =
     \<lparr>url = ''wss://e'', policy = read_write, subscriptions = [(''sub1'', [''kinds=1''])],
      connected = True\<rparr> \<and>
   objs (add_subscription_on_all_relays request_sees_record ''sub1'' [''kinds=1''] one_down)
     ! Suc 0 =
     \<lparr>url = ''wss://e'', policy = read_write, subscriptions = [(''sub1'', [''kinds=1''])],
      connected = True\<rparr>"
proof -
  have len: "length (objs one_down) = 2"
    by (simp add: one_down_eq)
  show ?thesis
    using three_relays_ok one_down_ok
      subscription_recorded_before_request_sent [OF three_relays_ok,
        where u = "''wss://c''" and tr = plain_transport and i = "''sub1''"
          and f = "[''kinds=1'']"]
      subscription_recorded_before_request_sent [OF one_down_ok,
        where u = "''wss://e''" and tr = request_sees_record and i = "''sub1''"
          and f = "[''kinds=1'']"]
    by (simp add: three_relays_values three_relays_policies three_relays_lookup
          one_down_values one_down_lookup one_down_at_e len request_sees_record_def
          three_relays_length update_conv')
qed

text \<open>
  C10. \<^verbatim>\<open>add_subscription_on_relay\<close> raises exactly when the url is not registered or the
  relay's policy has no \<open>should_read\<close>; and when it raises, the manager is as before but
  for the lock having been taken and released: the registry and every relay object are
  unchanged, and no call, hence no record and no message, was made on any relay.
\<close>

theorem add_subscription_on_relay_failure_is_atomic:
  "(fst (add_subscription_on_relay tr u i f m) \<noteq> None \<longleftrightarrow>
      (case map_of (relays m) u of
         None \<Rightarrow> True
       | Some r \<Rightarrow> \<not> should_read (policy (objs m ! r)))) \<and>
   (fst (add_subscription_on_relay tr u i f m) \<noteq> None \<longrightarrow>
      snd (add_subscription_on_relay tr u i f m) = m\<lparr>trace := trace m @ [Acquire, Release]\<rparr> \<and>
      relays (snd (add_subscription_on_relay tr u i f m)) = relays m \<and>
      objs (snd (add_subscription_on_relay tr u i f m)) = objs m \<and>
      (\<forall>r. calls_on r (emitted m (snd (add_subscription_on_relay tr u i f m))) = []))"
proof (cases "map_of (relays m) u")
  case None
  then show ?thesis by (simp add: add_subscription_on_relay_unknown)
next
  case (Some r)
  show ?thesis
  proof (cases "should_read (policy (objs m ! r))")
    case True
    with Some show ?thesis by (simp add: add_subscription_on_relay_readable)
  next
    case False
    with Some show ?thesis by (simp add: add_subscription_on_relay_unreadable)
  qed
qed

theorem add_subscription_on_relay_failure_is_atomic_witness:
  "fst (add_subscription_on_relay plain_transport ''wss://b'' ''sub1'' [''kinds=1'']
     three_relays) \<noteq> None \<and>
   snd (add_subscription_on_relay plain_transport ''wss://b'' ''sub1'' [''kinds=1''] three_relays) =
     three_relays\<lparr>trace := trace three_relays @ [Acquire, Release]\<rparr> \<and>
   fst (add_subscription_on_relay plain_transport ''wss://x'' ''sub1'' [''kinds=1'']
     three_relays) \<noteq> None \<and>
   objs (snd (add_subscription_on_relay plain_transport ''wss://x'' ''sub1'' [''kinds=1'']
     three_relays)) = objs three_relays"
  using
    add_subscription_on_relay_failure_is_atomic
      [where tr = plain_transport and u = "''wss://b''" and i = "''sub1''" and f = "[''kinds=1'']"
         and m = three_relays]
    add_subscription_on_relay_failure_is_atomic
      [where tr = plain_transport and u = "''wss://x''" and i = "''sub1''" and f = "[''kinds=1'']"
         and m = three_relays]
  by (simp add: three_relays_lookup three_relays_policies)

end
